theory Spec2Isabelle
  imports Complex_Main "HOL-Library.Monad_Syntax"
begin

section \<open>The SIP calculation utilities of \<^verbatim>\<open>src/SIPCalculator.jsx\<close>\<close>

text \<open>
  The object \<^verbatim>\<open>sipUtils\<close> holds five pure functions. Their numeric arguments are
  JavaScript numbers, that is binary64 floating-point numbers. Two models of them are
  given. In the first, amounts and percentages are exact reals (\<^typ>\<open>real\<close>): it states
  what the arithmetic written in the code computes when no operation rounds. In the
  second, for the two future-value functions, every operation rounds its result to
  binary64 as the language does; its names end in \<open>_f64\<close>. The horizon \<^verbatim>\<open>years\<close> and the
  loop counters are natural numbers. The one division whose divisor the code does not
  guard returns an option: \<open>None\<close> stands for the non-finite value JavaScript yields on a
  zero divisor.
\<close>

subsection \<open>Primitives of the language\<close>

text \<open>\<^verbatim>\<open>Math.round(x)\<close>: the nearest integer, a tie going towards plus infinity.\<close>

definition Math_round :: "real \<Rightarrow> int" where
  "Math_round x = \<lfloor>x + 1 / 2\<rfloor>"

text \<open>\<^verbatim>\<open>a / b\<close> where nothing guards \<open>b\<close>: no finite result on a zero divisor.\<close>

definition js_div :: "real \<Rightarrow> real \<Rightarrow> real option" where
  "js_div a b = (if b = 0 then None else Some (a / b))"

subsection \<open>Binary64 numbers\<close>

text \<open>
  Rounding to the nearest integer, a tie going to the even one: the rounding of the
  significand in IEEE 754 arithmetic.
\<close>

definition round_even :: "real \<Rightarrow> int" where
  "round_even y =
     (let f = \<lfloor>y\<rfloor>
      in if y - of_int f < 1 / 2 then f
         else if 1 / 2 < y - of_int f then f + 1
         else if even f then f else f + 1)"

text \<open>
  The exponent of the binade of a number: the \<open>e\<close> with \<open>2 ^ e \<le> a < 2 ^ (e + 1)\<close>, held
  between \<open>-1022\<close> (the subnormal numbers share the exponent of the smallest normal ones)
  and \<open>1023\<close>. It is found by counting up from \<open>-1022\<close>.
\<close>

fun exponent_search :: "nat \<Rightarrow> int \<Rightarrow> real \<Rightarrow> int" where
  "exponent_search 0 e a = e"
| "exponent_search (Suc n) e a =
     (if 2 powi (e + 1) \<le> a then exponent_search n (e + 1) a else e)"

definition binary64_exponent :: "real \<Rightarrow> int" where
  "binary64_exponent x = exponent_search 2045 (- 1022) \<bar>x\<bar>"

text \<open>
  \<open>fl x\<close> is \<open>x\<close> rounded to binary64: the nearest multiple of the spacing
  \<open>2 ^ (e - 52)\<close> of its binade, 53 significant bits, ties to even.
\<close>

definition fl :: "real \<Rightarrow> real" where
  "fl x = of_int (round_even (x / 2 powi (binary64_exponent x - 52)))
            * 2 powi (binary64_exponent x - 52)"

text \<open>
  A number of the language: \<open>Some x\<close> is the finite binary64 number of value \<open>x\<close>, \<open>None\<close>
  a non-finite one (an infinity or NaN). \<open>f64 x\<close> is the result of an operation whose
  exact value is \<open>x\<close>: rounded, and infinite once the rounded value reaches \<open>2 ^ 1024\<close>.
  A sum, difference or product with a non-finite operand is non-finite. The division
  takes a finite divisor, the only case the code has, and is non-finite on a zero divisor.
\<close>

type_synonym double = "real option"

definition f64 :: "real \<Rightarrow> double" where
  "f64 x = (if \<bar>fl x\<bar> < 2 ^ 1024 then Some (fl x) else None)"

definition f64_add :: "double \<Rightarrow> double \<Rightarrow> double" where
  "f64_add a b = do { x \<leftarrow> a; y \<leftarrow> b; f64 (x + y) }"

definition f64_sub :: "double \<Rightarrow> double \<Rightarrow> double" where
  "f64_sub a b = do { x \<leftarrow> a; y \<leftarrow> b; f64 (x - y) }"

definition f64_mul :: "double \<Rightarrow> double \<Rightarrow> double" where
  "f64_mul a b = do { x \<leftarrow> a; y \<leftarrow> b; f64 (x * y) }"

definition f64_div :: "double \<Rightarrow> real \<Rightarrow> double" where
  "f64_div a y = do { x \<leftarrow> a; if y = 0 then None else f64 (x / y) }"

text \<open>
  \<^verbatim>\<open>Math.pow(x, n)\<close> for a finite base and a natural exponent, taken as the rounded
  power. The language leaves the last bit of \<^verbatim>\<open>Math.pow\<close> to the implementation; at
  base 1, the only base evaluated below, the result is exactly 1.
\<close>

definition Math_pow :: "real \<Rightarrow> nat \<Rightarrow> double" where
  "Math_pow x n = f64 (x ^ n)"

subsection \<open>calculateNormalSIP\<close>

definition calculateNormalSIP :: "real \<Rightarrow> real \<Rightarrow> nat \<Rightarrow> real" where
  "calculateNormalSIP monthlyInvestment annualReturn years =
     (let monthlyRate = annualReturn / 12 / 100;
          months = years * 12
      in if monthlyRate = 0 then monthlyInvestment * real months
         else monthlyInvestment * ((1 + monthlyRate) ^ months - 1) / monthlyRate
                * (1 + monthlyRate))"

text \<open>
  The same function in binary64. \<^verbatim>\<open>annualReturn / 12 / 100\<close> and
  \<^verbatim>\<open>1 + monthlyRate\<close> are finite for every finite argument, so they are kept as
  reals; \<^verbatim>\<open>years * 12\<close> is exact below \<open>2 ^ 53\<close>. The operations are rounded in the
  order the expression is evaluated: product, quotient, product.
\<close>

definition monthlyRate_f64 :: "real \<Rightarrow> real" where
  "monthlyRate_f64 annualReturn = fl (fl (annualReturn / 12) / 100)"

definition calculateNormalSIP_f64 :: "real \<Rightarrow> real \<Rightarrow> nat \<Rightarrow> double" where
  "calculateNormalSIP_f64 monthlyInv annualReturn years =
     (let monthlyRate = monthlyRate_f64 annualReturn;
          months = years * 12
      in if monthlyRate = 0 then f64 (monthlyInv * real months)
         else f64_mul
                (f64_div
                   (f64_mul (Some monthlyInv)
                      (f64_sub (Math_pow (fl (1 + monthlyRate)) months) (Some 1)))
                   monthlyRate)
                (f64 (1 + monthlyRate)))"

subsection \<open>calculateStepUpSIP\<close>

text \<open>The inner loop \<^verbatim>\<open>for (month = 1; month <= 12; month++)\<close> on \<^verbatim>\<open>totalValue\<close>.\<close>

function stepUp_months :: "real \<Rightarrow> real \<Rightarrow> nat \<Rightarrow> real \<Rightarrow> real" where
  "stepUp_months monthlyRate currentMonthlyInvestment month totalValue =
     (if month \<le> 12
      then stepUp_months monthlyRate currentMonthlyInvestment (Suc month)
             ((totalValue + currentMonthlyInvestment) * (1 + monthlyRate))
      else totalValue)"
  by pat_completeness auto
termination
  by (relation "measure (\<lambda>(q, c, month, v). 13 - month)") auto

text \<open>The outer loop \<^verbatim>\<open>for (year = 1; year <= years; year++)\<close>.\<close>

function stepUp_years :: "real \<Rightarrow> real \<Rightarrow> nat \<Rightarrow> nat \<Rightarrow> real \<Rightarrow> real \<Rightarrow> real" where
  "stepUp_years monthlyRate stepUpPercent years year totalValue currentMonthlyInvestment =
     (if year \<le> years
      then stepUp_years monthlyRate stepUpPercent years (Suc year)
             (stepUp_months monthlyRate currentMonthlyInvestment 1 totalValue)
             (currentMonthlyInvestment * (1 + stepUpPercent / 100))
      else totalValue)"
  by pat_completeness auto
termination
  by (relation "measure (\<lambda>(q, s, years, year, v, c). Suc years - year)") auto

definition calculateStepUpSIP :: "real \<Rightarrow> real \<Rightarrow> nat \<Rightarrow> real \<Rightarrow> real" where
  "calculateStepUpSIP monthlyInvestment annualReturn years stepUpPercent =
     (let monthlyRate = annualReturn / 12 / 100
      in stepUp_years monthlyRate stepUpPercent years 1 0 monthlyInvestment)"

text \<open>
  The same two loops in binary64: \<^verbatim>\<open>totalValue\<close> and
  \<^verbatim>\<open>currentMonthlyInvestment\<close> are numbers of the language, each assignment rounds
  its sum and its product.
\<close>

function stepUp_months_f64 :: "real \<Rightarrow> double \<Rightarrow> nat \<Rightarrow> double \<Rightarrow> double" where
  "stepUp_months_f64 monthlyRate currentMonthlyInvestment month totalValue =
     (if month \<le> 12
      then stepUp_months_f64 monthlyRate currentMonthlyInvestment (Suc month)
             (f64_mul (f64_add totalValue currentMonthlyInvestment) (f64 (1 + monthlyRate)))
      else totalValue)"
  by pat_completeness auto
termination
  by (relation "measure (\<lambda>(q, c, month, v). 13 - month)") auto

function stepUp_years_f64 :: "real \<Rightarrow> real \<Rightarrow> nat \<Rightarrow> nat \<Rightarrow> double \<Rightarrow> double \<Rightarrow> double" where
  "stepUp_years_f64 monthlyRate stepUpPercent years yr totalValue currentMonthlyInvestment =
     (if yr \<le> years
      then stepUp_years_f64 monthlyRate stepUpPercent years (Suc yr)
             (stepUp_months_f64 monthlyRate currentMonthlyInvestment 1 totalValue)
             (f64_mul currentMonthlyInvestment (f64 (1 + fl (stepUpPercent / 100))))
      else totalValue)"
  by pat_completeness auto
termination
  by (relation "measure (\<lambda>(q, s, years, yr, v, c). Suc years - yr)") auto

definition calculateStepUpSIP_f64 :: "real \<Rightarrow> real \<Rightarrow> nat \<Rightarrow> real \<Rightarrow> double" where
  "calculateStepUpSIP_f64 monthlyInv annualReturn years stepUpPercent =
     (let monthlyRate = monthlyRate_f64 annualReturn
      in stepUp_years_f64 monthlyRate stepUpPercent years 1 (Some 0) (Some monthlyInv))"

subsection \<open>calculateInflationAdjusted\<close>

definition calculateInflationAdjusted :: "real \<Rightarrow> real \<Rightarrow> nat \<Rightarrow> real option" where
  "calculateInflationAdjusted futureValue inflationRate years =
     js_div futureValue ((1 + inflationRate / 100) ^ years)"

subsection \<open>generateYearlyBreakdown\<close>

record YearRecord =
  year :: nat
  monthlyInvestment :: int
  yearlyInvestment :: int
  totalInvested :: int
  yearEndValue :: int
  returns :: int

text \<open>
  The inner loop updates \<^verbatim>\<open>totalValue\<close>, \<^verbatim>\<open>yearlyInvestment\<close> and
  \<^verbatim>\<open>totalInvested\<close>; the triple is passed along in this order.
\<close>

function breakdown_months :: "real \<Rightarrow> real \<Rightarrow> nat \<Rightarrow> real \<times> real \<times> real \<Rightarrow> real \<times> real \<times> real" where
  "breakdown_months monthlyRate currentMonthlyInvestment month (totalValue, yearlyInv, totalInv) =
     (if month \<le> 12
      then breakdown_months monthlyRate currentMonthlyInvestment (Suc month)
             ((totalValue + currentMonthlyInvestment) * (1 + monthlyRate),
              yearlyInv + currentMonthlyInvestment,
              totalInv + currentMonthlyInvestment)
      else (totalValue, yearlyInv, totalInv))"
  by pat_completeness auto
termination
  by (relation "measure (\<lambda>(q, c, month, st). 13 - month)") auto

text \<open>
  The outer loop: after the twelve months it pushes one record, rounding each field from
  the unrounded variables, and then steps the monthly contribution up.
\<close>

function breakdown_years ::
  "real \<Rightarrow> real \<Rightarrow> nat \<Rightarrow> nat \<Rightarrow> real \<Rightarrow> real \<Rightarrow> real \<Rightarrow> YearRecord list \<Rightarrow> YearRecord list" where
  "breakdown_years monthlyRate stepUpPercent years yr totalValue currentMonthlyInvestment totalInv breakdown =
     (if yr \<le> years
      then (case breakdown_months monthlyRate currentMonthlyInvestment 1 (totalValue, 0, totalInv) of
              (totalValue', yearlyInv', totalInv') \<Rightarrow>
                breakdown_years monthlyRate stepUpPercent years (Suc yr) totalValue'
                  (currentMonthlyInvestment * (1 + stepUpPercent / 100)) totalInv'
                  (breakdown @
                    [\<lparr>year = yr,
                      monthlyInvestment = Math_round currentMonthlyInvestment,
                      yearlyInvestment = Math_round yearlyInv',
                      totalInvested = Math_round totalInv',
                      yearEndValue = Math_round totalValue',
                      returns = Math_round (totalValue' - totalInv')\<rparr>]))
      else breakdown)"
  by pat_completeness auto
termination
  by (relation "measure (\<lambda>(q, s, years, yr, v, c, t, b). Suc years - yr)") auto

definition generateYearlyBreakdown :: "real \<Rightarrow> real \<Rightarrow> nat \<Rightarrow> real \<Rightarrow> YearRecord list" where
  "generateYearlyBreakdown monthlyInv annualReturn years stepUpPercent =
     (let monthlyRate = annualReturn / 12 / 100
      in breakdown_years monthlyRate stepUpPercent years 1 0 monthlyInv 0 [])"

subsection \<open>generateChartData\<close>

record ChartPoint =
  cp_year :: nat
  normalSIP :: int
  stepUpSIP :: int

text \<open>The inner loop advances both balances, \<^verbatim>\<open>normalValue\<close> first.\<close>

function chart_months :: "real \<Rightarrow> real \<Rightarrow> real \<Rightarrow> nat \<Rightarrow> real \<times> real \<Rightarrow> real \<times> real" where
  "chart_months monthlyRate monthlyInv stepUpMonthly month (normalValue, stepUpValue) =
     (if month \<le> 12
      then chart_months monthlyRate monthlyInv stepUpMonthly (Suc month)
             ((normalValue + monthlyInv) * (1 + monthlyRate),
              (stepUpValue + stepUpMonthly) * (1 + monthlyRate))
      else (normalValue, stepUpValue))"
  by pat_completeness auto
termination
  by (relation "measure (\<lambda>(q, m, c, month, st). 13 - month)") auto

text \<open>
  The sampling test of the outer loop,
  \<^verbatim>\<open>year % Math.max(1, Math.floor(years / 10)) === 0 || year === years\<close>.
\<close>

definition chart_emit :: "nat \<Rightarrow> nat \<Rightarrow> bool" where
  "chart_emit years yr \<longleftrightarrow> yr mod (max 1 (years div 10)) = 0 \<or> yr = years"

function chart_years ::
  "real \<Rightarrow> real \<Rightarrow> real \<Rightarrow> nat \<Rightarrow> nat \<Rightarrow> real \<Rightarrow> real \<Rightarrow> real \<Rightarrow> ChartPoint list \<Rightarrow> ChartPoint list" where
  "chart_years monthlyRate stepUpPercent monthlyInv years yr normalValue stepUpValue stepUpMonthly data =
     (if yr \<le> years
      then (case chart_months monthlyRate monthlyInv stepUpMonthly 1 (normalValue, stepUpValue) of
              (normalValue', stepUpValue') \<Rightarrow>
                chart_years monthlyRate stepUpPercent monthlyInv years (Suc yr)
                  normalValue' stepUpValue' (stepUpMonthly * (1 + stepUpPercent / 100))
                  (if chart_emit years yr
                   then data @ [\<lparr>cp_year = yr,
                                  normalSIP = Math_round normalValue',
                                  stepUpSIP = Math_round stepUpValue'\<rparr>]
                   else data))
      else data)"
  by pat_completeness auto
termination
  by (relation "measure (\<lambda>(q, s, m, years, yr, nv, sv, c, d). Suc years - yr)") auto

definition generateChartData :: "real \<Rightarrow> real \<Rightarrow> nat \<Rightarrow> real \<Rightarrow> ChartPoint list" where
  "generateChartData monthlyInv annualReturn years stepUpPercent =
     (let monthlyRate = annualReturn / 12 / 100
      in chart_years monthlyRate stepUpPercent monthlyInv years 1 0 0 monthlyInv [])"

subsection \<open>The monthly update, iterated\<close>

text \<open>
  Both inner loops apply the same update to a balance. \<open>grow q c n v\<close> is the balance
  \<open>v\<close> after \<open>n\<close> further months of contributing \<open>c\<close> and compounding at rate \<open>q\<close>.
\<close>

primrec grow :: "real \<Rightarrow> real \<Rightarrow> nat \<Rightarrow> real \<Rightarrow> real" where
  "grow q c 0 v = v"
| "grow q c (Suc n) v = grow q c n ((v + c) * (1 + q))"

text \<open>
  The point that \<^verbatim>\<open>generateChartData\<close> pushes for year \<open>y\<close> when its outer loop is
  entered at year \<open>yr\<close> with balances \<open>nv\<close>, \<open>sv\<close> and step-up contribution \<open>c\<close>.
\<close>

definition chart_point :: "real \<Rightarrow> real \<Rightarrow> real \<Rightarrow> nat \<Rightarrow> real \<Rightarrow> real \<Rightarrow> real \<Rightarrow> nat \<Rightarrow> ChartPoint" where
  "chart_point q s m yr nv sv c y =
     \<lparr>cp_year = y,
      normalSIP = Math_round (grow q m (12 * (Suc y - yr)) nv),
      stepUpSIP = Math_round (stepUp_years q s y yr sv c)\<rparr>"

text \<open>
  The total contributed over \<open>n\<close> years that start with the monthly contribution \<open>c\<close>,
  and the record that \<^verbatim>\<open>generateYearlyBreakdown\<close> pushes for year \<open>y\<close> when its outer
  loop is entered at year \<open>yr\<close> with balance \<open>tv\<close>, contribution \<open>c\<close> and total \<open>ti\<close>.
\<close>

definition invested :: "real \<Rightarrow> real \<Rightarrow> nat \<Rightarrow> real" where
  "invested c s n = (\<Sum>k < n. 12 * (c * (1 + s / 100) ^ k))"

definition year_record :: "real \<Rightarrow> real \<Rightarrow> nat \<Rightarrow> real \<Rightarrow> real \<Rightarrow> real \<Rightarrow> nat \<Rightarrow> YearRecord" where
  "year_record q s yr tv c ti y =
     \<lparr>year = y,
      monthlyInvestment = Math_round (c * (1 + s / 100) ^ (y - yr)),
      yearlyInvestment = Math_round (12 * (c * (1 + s / 100) ^ (y - yr))),
      totalInvested = Math_round (ti + invested c s (Suc y - yr)),
      yearEndValue = Math_round (stepUp_years q s y yr tv c),
      returns = Math_round (stepUp_years q s y yr tv c - (ti + invested c s (Suc y - yr)))\<rparr>"

declare stepUp_months_f64.simps [simp del] stepUp_years_f64.simps [simp del]

declare stepUp_months.simps [simp del] stepUp_years.simps [simp del]
  breakdown_months.simps [simp del] breakdown_years.simps [simp del]
  chart_months.simps [simp del] chart_years.simps [simp del]

section \<open>The loops in closed form\<close>

lemma grow_Suc_right: "grow q c (Suc n) v = (grow q c n v + c) * (1 + q)"
  by (induction n arbitrary: v) simp_all

lemma grow_add: "grow q c (a + b) v = grow q c b (grow q c a v)"
  by (induction a arbitrary: v) simp_all

lemma stepUp_months_grow:
  "stepUp_months q c month v = grow q c (13 - month) v"
proof (induction q c month v rule: stepUp_months.induct)
  case (1 q c month v)
  show ?case
  proof (cases "month \<le> 12")
    case True
    then have "13 - month = Suc (13 - Suc month)" by simp
    with True 1 show ?thesis
      by (subst stepUp_months.simps) simp
  next
    case False
    then show ?thesis by (subst stepUp_months.simps) simp
  qed
qed

lemma stepUp_years_zero_step:
  "stepUp_years q 0 years yr v c = grow q c (12 * (Suc years - yr)) v"
proof (induction q "0::real" years yr v c rule: stepUp_years.induct)
  case (1 q years yr v c)
  show ?case
  proof (cases "yr \<le> years")
    case True
    then have "12 * (Suc years - yr) = 12 + 12 * (Suc years - Suc yr)" by simp
    with True 1 show ?thesis
      by (subst stepUp_years.simps) (simp add: stepUp_months_grow grow_add del: grow.simps)
  next
    case False
    then show ?thesis by (subst stepUp_years.simps) simp
  qed
qed

lemma grow_zero_rate: "grow 0 c n 0 = c * real n"
proof (induction n)
  case 0
  show ?case by simp
next
  case (Suc n)
  show ?case
    unfolding grow_Suc_right Suc.IH by (simp add: algebra_simps)
qed

lemma grow_closed:
  assumes "q \<noteq> 0"
  shows "grow q c n 0 = c * ((1 + q) ^ n - 1) / q * (1 + q)"
proof (induction n)
  case 0
  show ?case by simp
next
  case (Suc n)
  have "c * ((1 + q) ^ n - 1) / q * (1 + q) + c = c * ((1 + q) ^ Suc n - 1) / q"
    using assms by (simp add: field_simps)
  then show ?case
    unfolding grow_Suc_right Suc.IH by (simp only:)
qed

lemma geometric_sum_shift:
  "(\<Sum>k = 1..Suc n. c * x ^ k) = ((\<Sum>k = 1..n. c * x ^ k) + c) * (x::real)"
proof -
  have "(\<Sum>k = 1..Suc n. c * x ^ k) = c * x + (\<Sum>k = Suc 1..Suc n. c * x ^ k)"
    by (simp add: sum.atLeast_Suc_atMost)
  also have "(\<Sum>k = Suc 1..Suc n. c * x ^ k) = (\<Sum>k = 1..n. c * x ^ Suc k)"
    by (rule sum.shift_bounds_cl_Suc_ivl)
  also have "\<dots> = (\<Sum>k = 1..n. c * x ^ k) * x"
    by (simp add: sum_distrib_right mult.assoc mult.commute [of x])
  finally show ?thesis by (simp add: algebra_simps)
qed

lemma grow_sum: "grow q c n 0 = (\<Sum>k = 1..n. c * (1 + q) ^ k)"
proof (induction n)
  case 0
  show ?case by simp
next
  case (Suc n)
  show ?case
    unfolding grow_Suc_right Suc.IH by (simp only: geometric_sum_shift)
qed

lemma calculateStepUpSIP_zero_step:
  "calculateStepUpSIP m r y 0 = grow (r / 12 / 100) m (y * 12) 0"
  unfolding calculateStepUpSIP_def Let_def stepUp_years_zero_step
  by (simp add: mult.commute)

section \<open>The chart loop in closed form\<close>

lemma stepUp_years_unfold:
  "yr \<le> y \<Longrightarrow> stepUp_years q s y yr v c =
     stepUp_years q s y (Suc yr) (grow q c 12 v) (c * (1 + s / 100))"
  by (subst stepUp_years.simps) (simp add: stepUp_months_grow del: grow.simps)

lemma stepUp_years_done: "y < yr \<Longrightarrow> stepUp_years q s y yr v c = v"
  by (subst stepUp_years.simps) simp

lemma chart_months_grow:
  "chart_months q m c month (nv, sv) = (grow q m (13 - month) nv, grow q c (13 - month) sv)"
proof (induction q m c month "(nv, sv)" arbitrary: nv sv rule: chart_months.induct)
  case (1 q m c month nv sv)
  show ?case
  proof (cases "month \<le> 12")
    case True
    then have "13 - month = Suc (13 - Suc month)" by simp
    with True 1 show ?thesis
      by (subst chart_months.simps) simp
  next
    case False
    then show ?thesis by (subst chart_months.simps) simp
  qed
qed

lemma chart_point_first:
  "chart_point q s m yr nv sv c yr =
     \<lparr>cp_year = yr, normalSIP = Math_round (grow q m 12 nv),
      stepUpSIP = Math_round (grow q c 12 sv)\<rparr>"
  by (simp add: chart_point_def stepUp_years_unfold stepUp_years_done del: grow.simps)

lemma chart_point_shift:
  assumes "Suc yr \<le> y"
  shows "chart_point q s m (Suc yr) (grow q m 12 nv) (grow q c 12 sv) (c * (1 + s / 100)) y =
         chart_point q s m yr nv sv c y"
proof -
  from assms have "12 * (Suc y - yr) = 12 + 12 * (Suc y - Suc yr)" by simp
  then have "grow q m (12 * (Suc y - yr)) nv = grow q m (12 * (Suc y - Suc yr)) (grow q m 12 nv)"
    by (simp only: grow_add)
  moreover from assms have "stepUp_years q s y yr sv c =
      stepUp_years q s y (Suc yr) (grow q c 12 sv) (c * (1 + s / 100))"
    by (simp add: stepUp_years_unfold del: grow.simps)
  ultimately show ?thesis by (simp only: chart_point_def)
qed

lemma chart_years_eq:
  "chart_years q s m years yr nv sv c data =
     data @ map (chart_point q s m yr nv sv c) (filter (chart_emit years) [yr..<Suc years])"
proof (induction q s m years yr nv sv c data rule: chart_years.induct)
  case (1 q s m years yr nv sv c data)
  show ?case
  proof (cases "yr \<le> years")
    case True
    let ?data' = "if chart_emit years yr
                  then data @ [\<lparr>cp_year = yr, normalSIP = Math_round (grow q m 12 nv),
                                 stepUpSIP = Math_round (grow q c 12 sv)\<rparr>]
                  else data"
    have months: "chart_months q m c 1 (nv, sv) = (grow q m 12 nv, grow q c 12 sv)"
      by (simp add: chart_months_grow del: grow.simps)
    have "chart_years q s m years yr nv sv c data =
            chart_years q s m years (Suc yr) (grow q m 12 nv) (grow q c 12 sv)
              (c * (1 + s / 100)) ?data'"
      using True months by (subst chart_years.simps) (simp del: grow.simps)
    also have "\<dots> = ?data' @ map (chart_point q s m (Suc yr) (grow q m 12 nv) (grow q c 12 sv)
                                  (c * (1 + s / 100)))
                              (filter (chart_emit years) [Suc yr..<Suc years])"
      using 1 [OF True months [symmetric]] by simp
    also have "map (chart_point q s m (Suc yr) (grow q m 12 nv) (grow q c 12 sv) (c * (1 + s / 100)))
                 (filter (chart_emit years) [Suc yr..<Suc years]) =
               map (chart_point q s m yr nv sv c) (filter (chart_emit years) [Suc yr..<Suc years])"
      by (rule map_cong) (auto simp: chart_point_shift simp del: grow.simps)
    also have "?data' @ map (chart_point q s m yr nv sv c)
                          (filter (chart_emit years) [Suc yr..<Suc years]) =
               data @ map (chart_point q s m yr nv sv c)
                          (filter (chart_emit years) [yr..<Suc years])"
      using True by (simp add: upt_conv_Cons [of yr] chart_point_first del: grow.simps upt_Suc)
    finally show ?thesis .
  next
    case False
    then show ?thesis by (subst chart_years.simps) simp
  qed
qed

lemma generateChartData_eq:
  "generateChartData m r years s =
     map (chart_point (r / 12 / 100) s m 1 0 0 m) (filter (chart_emit years) [1..<Suc years])"
  by (simp only: generateChartData_def Let_def chart_years_eq append_Nil)

lemma chart_point_year: "cp_year (chart_point q s m yr nv sv c y) = y"
  by (simp add: chart_point_def)

lemma generateChartData_years:
  "map cp_year (generateChartData m r years s) = filter (chart_emit years) [1..<Suc years]"
  by (simp add: generateChartData_eq chart_point_year comp_def del: upt_Suc)


lemma chart_emit_last: "chart_emit years years"
  by (simp add: chart_emit_def)

lemma chart_years_list_snoc:
  assumes "1 \<le> years"
  shows "filter (chart_emit years) [1..<Suc years] =
         filter (\<lambda>i. i mod max 1 (years div 10) = 0) [1..<years] @ [years]"
proof -
  have "filter (chart_emit years) [1..<years] =
        filter (\<lambda>i. i mod max 1 (years div 10) = 0) [1..<years]"
    by (rule filter_cong) (auto simp: chart_emit_def)
  with assms show ?thesis by (simp add: chart_emit_last)
qed

lemma length_filter_multiples:
  "length (filter (\<lambda>i. i mod k = 0) [1..<Suc n]) = n div k"
proof (induction n)
  case 0
  show ?case by simp
next
  case (Suc n)
  have "[1..<Suc (Suc n)] = [1..<Suc n] @ [Suc n]" by simp
  then have "length (filter (\<lambda>i. i mod k = 0) [1..<Suc (Suc n)]) =
             n div k + (if Suc n mod k = 0 then 1 else 0)"
    using Suc by (simp only: filter_append length_append) simp
  then show ?case by (simp add: div_Suc)
qed

lemma length_generateChartData:
  assumes "1 \<le> years"
  shows "length (generateChartData m r years s) = (years - 1) div max 1 (years div 10) + 1"
proof -
  from assms obtain n where n: "years = Suc n" by (cases years) auto
  have "length (generateChartData m r years s) = length (map cp_year (generateChartData m r years s))"
    by simp
  also have "\<dots> = length (filter (\<lambda>i. i mod max 1 (years div 10) = 0) [1..<years]) + 1"
    using assms by (simp only: generateChartData_years chart_years_list_snoc) simp
  also have "length (filter (\<lambda>i. i mod max 1 (years div 10) = 0) [1..<years]) =
             (years - 1) div max 1 (years div 10)"
    using length_filter_multiples [of "max 1 (years div 10)" n] by (simp add: n)
  finally show ?thesis .
qed

lemma chart_length_le_19:
  "(years - 1) div max 1 (years div 10) + 1 \<le> (19::nat)"
proof (cases "years < 20")
  case True
  then have "max 1 (years div 10) = 1" by auto
  with True show ?thesis by simp
next
  case False
  define k where "k = years div 10"
  from False have k: "2 \<le> k" "years < 10 * k + 10" by (auto simp: k_def)
  then have "years - 1 < 15 * k" by simp
  then have "(years - 1) div k < 15" by (rule less_mult_imp_div_less)
  moreover from k have "max 1 (years div 10) = k" by (simp add: k_def)
  ultimately show ?thesis by simp
qed

lemma chart_length_le_11:
  assumes "90 \<le> years"
  shows "(years - 1) div max 1 (years div 10) + 1 \<le> (11::nat)"
proof -
  define k where "k = years div 10"
  from assms have k: "9 \<le> k" "years < 10 * k + 10" by (auto simp: k_def)
  then have "years - 1 < 11 * k" by simp
  then have "(years - 1) div k < 11" by (rule less_mult_imp_div_less)
  moreover from k have "max 1 (years div 10) = k" by (simp add: k_def)
  ultimately show ?thesis by simp
qed

section \<open>The breakdown loop in closed form\<close>

lemma invested_Suc_shift:
  "invested c s (Suc n) = 12 * c + invested (c * (1 + s / 100)) s n"
  unfolding invested_def by (subst sum.lessThan_Suc_shift) (simp add: mult.assoc)

lemma breakdown_months_grow:
  "breakdown_months q c month (tv, yi, ti) =
     (grow q c (13 - month) tv, yi + real (13 - month) * c, ti + real (13 - month) * c)"
proof (induction q c month "(tv, yi, ti)" arbitrary: tv yi ti rule: breakdown_months.induct)
  case (1 q c month tv yi ti)
  show ?case
  proof (cases "month \<le> 12")
    case True
    then have "13 - month = Suc (13 - Suc month)" by simp
    with True 1 show ?thesis
      by (subst breakdown_months.simps) (simp add: algebra_simps)
  next
    case False
    then show ?thesis by (subst breakdown_months.simps) simp
  qed
qed

lemma year_record_first:
  "year_record q s yr tv c ti yr =
     \<lparr>year = yr, monthlyInvestment = Math_round c, yearlyInvestment = Math_round (12 * c),
      totalInvested = Math_round (ti + 12 * c), yearEndValue = Math_round (grow q c 12 tv),
      returns = Math_round (grow q c 12 tv - (ti + 12 * c))\<rparr>"
  by (simp add: year_record_def stepUp_years_unfold stepUp_years_done invested_def
      del: grow.simps)

lemma year_record_shift:
  assumes "Suc yr \<le> y"
  shows "year_record q s (Suc yr) (grow q c 12 tv) (c * (1 + s / 100)) (ti + 12 * c) y =
         year_record q s yr tv c ti y"
proof -
  from assms have a: "y - yr = Suc (y - Suc yr)" and b: "Suc y - yr = Suc (Suc y - Suc yr)"
    by simp_all
  have c: "c * (1 + s / 100) * (1 + s / 100) ^ (y - Suc yr) = c * (1 + s / 100) ^ (y - yr)"
    by (simp only: a power_Suc mult.assoc)
  have d: "ti + 12 * c + invested (c * (1 + s / 100)) s (Suc y - Suc yr) =
           ti + invested c s (Suc y - yr)"
    by (simp only: b invested_Suc_shift add.assoc)
  from assms have e: "stepUp_years q s y (Suc yr) (grow q c 12 tv) (c * (1 + s / 100)) =
      stepUp_years q s y yr tv c"
    by (simp add: stepUp_years_unfold del: grow.simps)
  show ?thesis by (simp only: year_record_def c d e)
qed

lemma breakdown_years_eq:
  "breakdown_years q s years yr tv c ti bd =
     bd @ map (year_record q s yr tv c ti) [yr..<Suc years]"
proof (induction q s years yr tv c ti bd rule: breakdown_years.induct)
  case (1 q s years yr tv c ti bd)
  show ?case
  proof (cases "yr \<le> years")
    case True
    have months: "breakdown_months q c 1 (tv, 0, ti) = (grow q c 12 tv, 12 * c, ti + 12 * c)"
      by (simp add: breakdown_months_grow del: grow.simps)
    have "breakdown_years q s years yr tv c ti bd =
            breakdown_years q s years (Suc yr) (grow q c 12 tv) (c * (1 + s / 100)) (ti + 12 * c)
              (bd @ [year_record q s yr tv c ti yr])"
      using True months by (subst breakdown_years.simps) (simp add: year_record_first del: grow.simps)
    also have "\<dots> = (bd @ [year_record q s yr tv c ti yr]) @
                       map (year_record q s (Suc yr) (grow q c 12 tv) (c * (1 + s / 100)) (ti + 12 * c))
                         [Suc yr..<Suc years]"
      using 1 [OF True months [symmetric] refl]
      by (simp add: year_record_first del: grow.simps upt_Suc)
    also have "map (year_record q s (Suc yr) (grow q c 12 tv) (c * (1 + s / 100)) (ti + 12 * c))
                 [Suc yr..<Suc years] =
               map (year_record q s yr tv c ti) [Suc yr..<Suc years]"
      by (rule map_cong) (auto simp: year_record_shift simp del: grow.simps)
    also have "(bd @ [year_record q s yr tv c ti yr]) @
                 map (year_record q s yr tv c ti) [Suc yr..<Suc years] =
               bd @ map (year_record q s yr tv c ti) [yr..<Suc years]"
      using True by (simp add: upt_conv_Cons [of yr] del: upt_Suc)
    finally show ?thesis .
  next
    case False
    then show ?thesis by (subst breakdown_years.simps) simp
  qed
qed

lemma generateYearlyBreakdown_eq:
  "generateYearlyBreakdown m r years s =
     map (year_record (r / 12 / 100) s 1 0 m 0) [1..<Suc years]"
  by (simp only: generateYearlyBreakdown_def Let_def breakdown_years_eq append_Nil)

lemma length_generateYearlyBreakdown: "length (generateYearlyBreakdown m r years s) = years"
  by (simp add: generateYearlyBreakdown_eq del: upt_Suc)

lemma generateYearlyBreakdown_nth:
  assumes "i < years"
  shows "generateYearlyBreakdown m r years s ! i =
     \<lparr>year = Suc i,
      monthlyInvestment = Math_round (m * (1 + s / 100) ^ i),
      yearlyInvestment = Math_round (12 * (m * (1 + s / 100) ^ i)),
      totalInvested = Math_round (invested m s (Suc i)),
      yearEndValue = Math_round (calculateStepUpSIP m r (Suc i) s),
      returns = Math_round (calculateStepUpSIP m r (Suc i) s - invested m s (Suc i))\<rparr>"
proof -
  from assms have "[1..<Suc years] ! i = Suc i"
    by (metis One_nat_def Suc_less_eq nth_upt plus_1_eq_Suc diff_Suc_1 length_upt)
  with assms have "generateYearlyBreakdown m r years s ! i =
      year_record (r / 12 / 100) s 1 0 m 0 (Suc i)"
    by (simp add: generateYearlyBreakdown_eq del: upt_Suc)
  then show ?thesis
    by (simp add: year_record_def calculateStepUpSIP_def)
qed


section \<open>Growth of the step-up balance\<close>

lemma grow_linear: "grow q c n v = v * (1 + q) ^ n + grow q c n 0"
proof (induction n arbitrary: v)
  case 0
  show ?case by simp
next
  case (Suc n)
  have "grow q c (Suc n) v = (grow q c n v + c) * (1 + q)" by (rule grow_Suc_right)
  also have "\<dots> = (v * (1 + q) ^ n + grow q c n 0 + c) * (1 + q)"
    using Suc [of v] by simp
  also have "\<dots> = v * (1 + q) ^ Suc n + (grow q c n 0 + c) * (1 + q)"
    by (simp add: algebra_simps)
  finally show ?case by (simp only: grow_Suc_right)
qed

lemma grow_value:
  assumes "q \<noteq> 0"
  shows "grow q c n v = v * (1 + q) ^ n + c * ((1 + q) ^ n - 1) / q * (1 + q)"
  using grow_linear [of q c n v] by (simp only: grow_closed [OF assms])

lemma grow_no_contribution: "grow q 0 n 0 = 0"
  by (induction n) simp_all

lemma grow_ge:
  assumes "0 \<le> q" "0 \<le> c"
  shows "0 \<le> v \<Longrightarrow> v + real n * c \<le> grow q c n v"
proof (induction n arbitrary: v)
  case 0
  show ?case by simp
next
  case (Suc n)
  from assms Suc.prems have "0 \<le> (v + c) * q" by simp
  then have a: "v + c \<le> (v + c) * (1 + q)" by (simp add: algebra_simps)
  with assms Suc.prems have "0 \<le> (v + c) * (1 + q)" by linarith
  then have "(v + c) * (1 + q) + real n * c \<le> grow q c n ((v + c) * (1 + q))"
    by (rule Suc.IH)
  with a show ?case by (simp add: algebra_simps)
qed

lemma stepUp_years_Suc_right:
  "yr \<le> Suc years \<Longrightarrow>
   stepUp_years q s (Suc years) yr tv c =
     grow q (c * (1 + s / 100) ^ (Suc years - yr)) 12 (stepUp_years q s years yr tv c)"
proof (induction q s years yr tv c rule: stepUp_years.induct)
  case (1 q s years yr tv c)
  show ?case
  proof (cases "yr \<le> years")
    case True
    then have e: "Suc years - yr = Suc (Suc years - Suc yr)" by simp
    have "stepUp_years q s (Suc years) yr tv c =
          stepUp_years q s (Suc years) (Suc yr) (grow q c 12 tv) (c * (1 + s / 100))"
      using True by (simp add: stepUp_years_unfold del: grow.simps)
    also have "\<dots> = grow q (c * (1 + s / 100) * (1 + s / 100) ^ (Suc years - Suc yr)) 12
                        (stepUp_years q s years (Suc yr) (grow q c 12 tv) (c * (1 + s / 100)))"
      using 1 True by (simp add: stepUp_months_grow del: grow.simps)
    also have "stepUp_years q s years (Suc yr) (grow q c 12 tv) (c * (1 + s / 100)) =
               stepUp_years q s years yr tv c"
      using True by (simp add: stepUp_years_unfold del: grow.simps)
    finally show ?thesis by (simp only: e power_Suc mult.assoc)
  next
    case False
    with 1 have "yr = Suc years" by simp
    then show ?thesis
      by (simp add: stepUp_years_unfold stepUp_years_done del: grow.simps)
  qed
qed

lemma calculateStepUpSIP_0: "calculateStepUpSIP m r 0 s = 0"
  by (simp add: calculateStepUpSIP_def stepUp_years_done)

lemma calculateStepUpSIP_Suc:
  "calculateStepUpSIP m r (Suc n) s =
     grow (r / 12 / 100) (m * (1 + s / 100) ^ n) 12 (calculateStepUpSIP m r n s)"
  unfolding calculateStepUpSIP_def Let_def
  by (subst stepUp_years_Suc_right) simp_all

lemma calculateStepUpSIP_no_contribution: "calculateStepUpSIP 0 r n s = 0"
  by (induction n) (simp_all add: calculateStepUpSIP_0 calculateStepUpSIP_Suc grow_no_contribution
      del: grow.simps)

lemma calculateStepUpSIP_step:
  assumes "0 \<le> m" "0 \<le> r" "0 \<le> s"
  shows "0 \<le> calculateStepUpSIP m r n s
         \<and> calculateStepUpSIP m r n s + 12 * m \<le> calculateStepUpSIP m r (Suc n) s"
proof (induction n)
  case 0
  from assms have "0 \<le> r / 12 / 100" by simp
  from grow_ge [OF this assms(1), of 0 12]
  show ?case by (simp add: calculateStepUpSIP_0 calculateStepUpSIP_Suc del: grow.simps)
next
  case (Suc n)
  let ?c = "m * (1 + s / 100) ^ Suc n"
  from assms have q: "0 \<le> r / 12 / 100" by simp
  from assms have "1 \<le> (1 + s / 100) ^ Suc n" by (intro one_le_power) simp
  with assms have c: "m \<le> ?c" by (simp only: mult_left_mono [of 1 _ m, simplified])
  with assms have c0: "0 \<le> ?c" by linarith
  from Suc assms have v: "0 \<le> calculateStepUpSIP m r (Suc n) s" by linarith
  from grow_ge [OF q c0 v, of 12] c
  have "calculateStepUpSIP m r (Suc n) s + 12 * m \<le> calculateStepUpSIP m r (Suc (Suc n)) s"
    by (simp only: calculateStepUpSIP_Suc [of m r "Suc n" s])
  with v show ?case by simp
qed

lemma calculateStepUpSIP_mono:
  assumes "0 \<le> m" "0 \<le> r" "0 \<le> s" "i < j"
  shows "calculateStepUpSIP m r i s + 12 * m \<le> calculateStepUpSIP m r j s"
  using \<open>i < j\<close>
proof (induction j)
  case 0
  then show ?case by simp
next
  case (Suc j)
  note step = calculateStepUpSIP_step [OF assms(1-3)]
  show ?case
  proof (cases "i = j")
    case True
    with step [of j] show ?thesis by simp
  next
    case False
    with Suc have "calculateStepUpSIP m r i s + 12 * m \<le> calculateStepUpSIP m r j s" by simp
    with step [of j] assms(1) show ?thesis by linarith
  qed
qed

section \<open>Rounding\<close>

lemma Math_round_0: "Math_round 0 = 0"
  by (simp add: Math_round_def)

lemma Math_round_mono: "a \<le> b \<Longrightarrow> Math_round a \<le> Math_round b"
  unfolding Math_round_def by (rule floor_mono) simp

lemma Math_round_strict_mono: "a + 1 \<le> b \<Longrightarrow> Math_round a < Math_round b"
proof -
  assume "a + 1 \<le> b"
  then have "\<lfloor>a + 1 / 2 + 1\<rfloor> \<le> \<lfloor>b + 1 / 2\<rfloor>" by (intro floor_mono) simp
  moreover have "\<lfloor>a + 1 / 2 + 1\<rfloor> = \<lfloor>a + 1 / 2\<rfloor> + 1" by linarith
  ultimately show ?thesis unfolding Math_round_def by linarith
qed

lemma Math_round_eqI:
  "real_of_int n - 1 / 2 \<le> x \<Longrightarrow> x < real_of_int n + 1 / 2 \<Longrightarrow> Math_round x = n"
  unfolding Math_round_def by (rule floor_unique) simp_all

lemma Math_round_diff:
  "\<bar>Math_round (a - b) - (Math_round a - Math_round b)\<bar> \<le> 1"
  unfolding Math_round_def by linarith

lemma Math_round_diff_int:
  assumes "b \<in> \<int>"
  shows "Math_round (a - b) = Math_round a - Math_round b"
proof -
  from assms obtain k where k: "b = of_int k" by (auto elim: Ints_cases)
  have "a - of_int k + 1 / 2 = a + 1 / 2 - of_int k" by simp
  then have "\<lfloor>a - of_int k + 1 / 2\<rfloor> = \<lfloor>a + 1 / 2\<rfloor> - k"
    by (simp only: floor_diff_of_int)
  moreover have "\<lfloor>real_of_int k + 1 / 2\<rfloor> = k" by linarith
  ultimately show ?thesis by (simp add: Math_round_def k)
qed

section \<open>Inputs without contributions\<close>

lemma invested_no_contribution: "invested 0 s n = 0"
  by (simp add: invested_def)

lemma calculateNormalSIP_no_contribution: "calculateNormalSIP 0 r years = 0"
  by (simp add: calculateNormalSIP_def Let_def)

lemma calculateNormalSIP_0: "calculateNormalSIP m r 0 = 0"
  by (simp add: calculateNormalSIP_def Let_def)

lemma year_record_no_contribution:
  "year_record q s 1 0 0 0 =
     (\<lambda>y. \<lparr>year = y, monthlyInvestment = 0, yearlyInvestment = 0, totalInvested = 0,
      yearEndValue = 0, returns = 0\<rparr>)"
proof
  fix y
  show "year_record q s 1 0 0 0 y =
     \<lparr>year = y, monthlyInvestment = 0, yearlyInvestment = 0, totalInvested = 0,
      yearEndValue = 0, returns = 0\<rparr>"
    using calculateStepUpSIP_no_contribution [of "q * 12 * 100" y s]
    by (simp add: year_record_def invested_no_contribution Math_round_0 calculateStepUpSIP_def)
qed

lemma chart_point_no_contribution:
  "chart_point q s 0 1 0 0 0 = (\<lambda>y. \<lparr>cp_year = y, normalSIP = 0, stepUpSIP = 0\<rparr>)"
proof
  fix y
  show "chart_point q s 0 1 0 0 0 y = \<lparr>cp_year = y, normalSIP = 0, stepUpSIP = 0\<rparr>"
    using calculateStepUpSIP_no_contribution [of "q * 12 * 100" y s]
    by (simp add: chart_point_def grow_no_contribution Math_round_0 calculateStepUpSIP_def
        del: grow.simps)
qed

section \<open>The default inputs, year 7\<close>

lemma stepUp_value_year_7: "8547635759 / 10000 < calculateStepUpSIP 5000 12 7 10
         \<and> calculateStepUpSIP 5000 12 7 10 < 8547635760 / 10000"
  by (simp add: calculateStepUpSIP_def stepUp_years_unfold stepUp_years_done grow_value power_divide del: grow.simps)

lemma invested_year_7: "invested 5000 10 7 = 56923026 / 100"
  by (simp add: invested_def lessThan_Suc eval_nat_numeral power_divide)

section \<open>Binary64 rounding\<close>

lemma exponent_search_eq:
  "e \<le> k \<Longrightarrow> nat (k - e) \<le> n \<Longrightarrow> 2 powi k \<le> a \<Longrightarrow> a < 2 powi (k + 1)
   \<Longrightarrow> exponent_search n e a = k"
proof (induction n arbitrary: e)
  case 0
  then show ?case by simp
next
  case (Suc n)
  show ?case
  proof (cases "e = k")
    case True
    with Suc.prems show ?thesis by simp
  next
    case False
    with Suc.prems have ek: "e + 1 \<le> k" by simp
    then have "(2::real) powi (e + 1) \<le> 2 powi k" by (intro power_int_increasing) simp_all
    with Suc.prems have "2 powi (e + 1) \<le> a" by linarith
    moreover from Suc.prems ek have "exponent_search n (e + 1) a = k"
      by (intro Suc.IH) simp_all
    ultimately show ?thesis by simp
  qed
qed

lemma exponent_search_low: "a < 2 powi (e + 1) \<Longrightarrow> exponent_search n e a = e"
  by (cases n) simp_all

lemma binary64_exponent_eq:
  assumes "2 powi k \<le> \<bar>x\<bar>" "\<bar>x\<bar> < 2 powi (k + 1)" "- 1022 \<le> k" "k \<le> 1023"
  shows "binary64_exponent x = k"
  unfolding binary64_exponent_def using assms
  by (intro exponent_search_eq) simp_all

lemma round_even_of_int: "round_even (of_int z) = z"
  by (simp add: round_even_def)

lemma fl_eq:
  assumes "2 powi k \<le> \<bar>x\<bar>" "\<bar>x\<bar> < 2 powi (k + 1)" "- 1022 \<le> k" "k \<le> 1023"
  shows "fl x = of_int (round_even (x / 2 powi (k - 52))) * 2 powi (k - 52)"
  by (simp only: fl_def binary64_exponent_eq [OF assms])

lemma fl_0: "fl 0 = 0"
  by (simp add: fl_def round_even_def)

lemma fl_small:
  assumes "1 / 2 ^ n \<le> \<bar>x\<bar>" "\<bar>x\<bar> < 2 / 2 ^ n" "n \<le> 1022"
  shows "fl x = of_int (round_even (x * 2 ^ (n + 52))) / 2 ^ (n + 52)"
proof -
  have a: "(2::real) powi (- int n) = 1 / 2 ^ n"
    by (simp add: power_int_minus inverse_eq_divide)
  have "(2::real) powi (- int n + 1) = 2 powi (- int n) * 2 powi 1"
    by (rule power_int_add) simp
  then have "(2::real) powi (- int n + 1) = 2 / 2 ^ n"
    by (simp add: a)
  moreover have "1 - int n = - int n + 1" by simp
  ultimately have b: "(2::real) powi (1 - int n) = 2 / 2 ^ n" by (simp only:)
  have "(2::real) powi (- int (n + 52)) = inverse (2 powi int (n + 52))"
    by (rule power_int_minus)
  also have "\<dots> = 1 / 2 ^ (n + 52)"
    by (simp only: power_int_of_nat inverse_eq_divide)
  finally have "(2::real) powi (- int (n + 52)) = 1 / 2 ^ (n + 52)" .
  moreover have "- int (n + 52) = - int n - 52" by simp
  ultimately have c: "(2::real) powi (- int n - 52) = 1 / 2 ^ (n + 52)" by (simp only:)
  from assms have "fl x = of_int (round_even (x / 2 powi (- int n - 52))) * 2 powi (- int n - 52)"
    by (intro fl_eq) (simp_all add: a b)
  then show ?thesis by (simp add: c)
qed


lemma fl_of_nat:
  assumes "n < 2 ^ 53"
  shows "fl (real n) = real n"
proof (cases "n = 0")
  case True
  then show ?thesis by (simp add: fl_0)
next
  case False
  then have "1 \<le> n" by simp
  with ex_power_ivl1 [of 2 n] obtain k where k: "2 ^ k \<le> n" "n < 2 ^ (k + 1)" by auto
  from k(1) assms have "(2::nat) ^ k < 2 ^ 53" by linarith
  then have "k < 53" by (rule power_less_imp_less_exp [rotated]) simp
  then have k52: "k \<le> 52" by simp
  have lo: "(2::real) powi int k \<le> \<bar>real n\<bar>"
    using k(1) by (simp only: power_int_of_nat abs_of_nat) (metis of_nat_le_iff of_nat_numeral of_nat_power)
  have hi: "\<bar>real n\<bar> < 2 powi (int k + 1)"
  proof -
    have "real n < 2 ^ (k + 1)"
      using k(2) by (metis of_nat_less_iff of_nat_numeral of_nat_power)
    moreover have "(2::real) powi (int k + 1) = 2 ^ (k + 1)"
      using power_int_of_nat [of "2::real" "k + 1"] by (simp add: add.commute)
    ultimately show ?thesis by simp
  qed
  have u: "(2::real) powi (int k - 52) = 1 / 2 ^ (52 - k)"
  proof -
    have "(2::real) powi (- int (52 - k)) = inverse (2 powi int (52 - k))"
      by (rule power_int_minus)
    also have "\<dots> = 1 / 2 ^ (52 - k)"
      by (simp only: power_int_of_nat inverse_eq_divide)
    finally have "(2::real) powi (- int (52 - k)) = 1 / 2 ^ (52 - k)" .
    moreover from k52 have "- int (52 - k) = int k - 52" by simp
    ultimately show ?thesis by (simp only:)
  qed
  have "fl (real n) = of_int (round_even (real n / 2 powi (int k - 52))) * 2 powi (int k - 52)"
    using lo hi k52 by (intro fl_eq) simp_all
  also have "real n / 2 powi (int k - 52) = of_int (int (n * 2 ^ (52 - k)))"
    by (simp add: u)
  also have "of_int (round_even (of_int (int (n * 2 ^ (52 - k))))) * (2::real) powi (int k - 52) = real n"
    by (simp only: round_even_of_int u) simp
  finally show ?thesis .
qed

lemma fl_1: "fl 1 = 1"
  using fl_of_nat [of 1] by simp

lemma fl_one_plus_tiny:
  assumes "0 \<le> q" "q < 1 / 2 ^ 53"
  shows "fl (1 + q) = 1"
proof -
  from assms have q: "q * 2 ^ 52 < 1 / 2" "0 \<le> q * 2 ^ 52" by simp_all
  then have fl0: "\<lfloor>(1 + q) * 2 ^ 52\<rfloor> = 2 ^ 52"
    by (intro floor_unique) (simp_all add: algebra_simps)
  have d: "(1 + q) * 2 ^ 52 - real_of_int (2 ^ 52) = q * 2 ^ 52"
    by (simp add: algebra_simps)
  have r: "round_even ((1 + q) * 2 ^ 52) = 2 ^ 52"
    by (simp only: round_even_def Let_def fl0 d q(1) if_True)
  have u: "(2::real) powi (0 - 52) = 1 / 2 ^ 52"
    by (simp add: power_int_minus)
  from assms have "fl (1 + q) = of_int (round_even ((1 + q) / 2 powi (0 - 52))) * 2 powi (0 - 52)"
    by (intro fl_eq) simp_all
  also have "(1 + q) / 2 powi (0 - 52) = (1 + q) * 2 ^ 52"
    by (simp only: u) simp
  finally have "fl (1 + q) = of_int (2 ^ 52) * (1 / 2 ^ 52)"
    by (simp only: r u)
  then show ?thesis by simp
qed

lemma f64_Some_1: "fl x = 1 \<Longrightarrow> f64 x = Some 1"
proof -
  assume a: "fl x = 1"
  have "(1::real) < 2 ^ 1024" by (rule one_less_power) simp_all
  then show ?thesis by (simp only: f64_def a abs_one if_True)
qed

lemma f64_0: "f64 0 = Some 0"
  by (simp add: f64_def fl_0)

lemma f64_1: "f64 1 = Some 1"
  by (simp add: f64_def fl_1)

lemma f64_of_nat: "n < 2 ^ 53 \<Longrightarrow> f64 (real n) = Some (real n)"
proof -
  assume a: "n < 2 ^ 53"
  then have "real n < 2 ^ 53" by (metis of_nat_less_iff of_nat_numeral of_nat_power)
  moreover have "(2::real) ^ 53 < 2 ^ 1024" by (intro power_strict_increasing) simp_all
  ultimately show ?thesis by (simp add: f64_def fl_of_nat [OF a])
qed

lemma calculateNormalSIP_f64_tiny_rate:
  assumes "0 < monthlyRate_f64 r" "monthlyRate_f64 r < 1 / 2 ^ 53"
  shows "calculateNormalSIP_f64 m r y = Some 0"
proof -
  from assms have one: "fl (1 + monthlyRate_f64 r) = 1"
    by (intro fl_one_plus_tiny) simp_all
  then have g: "f64 (1 + monthlyRate_f64 r) = Some 1" by (rule f64_Some_1)
  from assms(1) show ?thesis
    by (simp add: calculateNormalSIP_f64_def Let_def one g Math_pow_def f64_1 f64_0
        f64_sub_def f64_mul_def f64_div_def)
qed

lemma calculateNormalSIP_f64_zero_rate:
  "calculateNormalSIP_f64 m 0 y = f64 (m * real (y * 12))"
  by (simp add: calculateNormalSIP_f64_def monthlyRate_f64_def fl_0)

lemma stepUp_months_f64_nat:
  "fl (1 + q) = 1 \<Longrightarrow> tv + (13 - month) * c < 2 ^ 53 \<Longrightarrow>
   stepUp_months_f64 q (Some (real c)) month (Some (real tv)) =
     Some (real (tv + (13 - month) * c))"
proof (induction q "Some (real c) :: double" month "Some (real tv) :: double" arbitrary: tv
    rule: stepUp_months_f64.induct)
  case (1 q month tv)
  show ?case
  proof (cases "month \<le> 12")
    case True
    then have e: "13 - month = Suc (13 - Suc month)" by simp
    with "1.prems" have b: "tv + c < 2 ^ 53" by simp
    from "1.prems"(1) have g: "f64 (1 + q) = Some 1" by (rule f64_Some_1)
    have step: "f64_mul (f64_add (Some (real tv)) (Some (real c))) (f64 (1 + q)) = Some (real (tv + c))"
      using f64_of_nat [OF b] by (simp add: f64_add_def f64_mul_def g)
    have eq: "tv + c + (13 - Suc month) * c = tv + (13 - month) * c"
      by (simp only: e mult_Suc)
    with "1.prems" have "tv + c + (13 - Suc month) * c < 2 ^ 53" by (simp only:)
    with "1.hyps" [OF True step "1.prems"(1)]
    have rest: "stepUp_months_f64 q (Some (real c)) (Suc month) (Some (real (tv + c))) =
          Some (real (tv + c + (13 - Suc month) * c))" .
    have "stepUp_months_f64 q (Some (real c)) month (Some (real tv)) =
          stepUp_months_f64 q (Some (real c)) (Suc month) (Some (real (tv + c)))"
      using True by (subst stepUp_months_f64.simps) (simp only: if_True step)
    also note rest
    finally show ?thesis by (simp only: eq)
  next
    case False
    then show ?thesis by (subst stepUp_months_f64.simps) simp
  qed
qed


lemma stepUp_years_f64_nat:
  "fl (1 + q) = 1 \<Longrightarrow> tv + 12 * (Suc years - yr) * c < 2 ^ 53 \<Longrightarrow>
   stepUp_years_f64 q 0 years yr (Some (real tv)) (Some (real c)) =
     Some (real (tv + 12 * (Suc years - yr) * c))"
proof (induction q "0::real" years yr "Some (real tv) :: double" "Some (real c) :: double"
    arbitrary: tv rule: stepUp_years_f64.induct)
  case (1 q years yr tv)
  show ?case
  proof (cases "yr \<le> years")
    case True
    then have e: "Suc years - yr = Suc (Suc years - Suc yr)" by simp
    have eq: "tv + 12 * c + 12 * (Suc years - Suc yr) * c = tv + 12 * (Suc years - yr) * c"
      by (simp only: e) (simp add: algebra_simps)
    with "1.prems"(2) have b: "tv + 12 * c + 12 * (Suc years - Suc yr) * c < 2 ^ 53"
      by (simp only:)
    then have b12: "tv + (13 - 1) * c < 2 ^ 53" and bc: "c < 2 ^ 53" by simp_all
    have months: "stepUp_months_f64 q (Some (real c)) 1 (Some (real tv)) = Some (real (tv + 12 * c))"
      using stepUp_months_f64_nat [OF "1.prems"(1) b12] by simp
    have cur: "f64_mul (Some (real c)) (f64 (1 + fl (0 / 100))) = Some (real c)"
      using f64_of_nat [OF bc] by (simp add: fl_0 f64_1 f64_mul_def)
    have "stepUp_years_f64 q 0 years yr (Some (real tv)) (Some (real c)) =
          stepUp_years_f64 q 0 years (Suc yr) (Some (real (tv + 12 * c))) (Some (real c))"
      using True by (subst stepUp_years_f64.simps) (simp only: if_True months cur)
    also have "\<dots> = Some (real (tv + 12 * c + 12 * (Suc years - Suc yr) * c))"
      by (rule "1.hyps" [OF True months cur "1.prems"(1) b])
    finally show ?thesis by (simp only: eq)
  next
    case False
    then show ?thesis by (subst stepUp_years_f64.simps) simp
  qed
qed

lemma literal_1e_13: "fl (1 / 10 ^ 13) = 7922816251426434 / 2 ^ 96"
  using fl_small [of 44 "1 / 10 ^ 13"] by (simp add: round_even_def)

lemma monthlyRate_f64_1e_13:
  "monthlyRate_f64 (fl (1 / 10 ^ 13)) = 6760803201217224 / 2 ^ 106"
proof -
  have a: "fl (7922816251426434 / 2 ^ 96 / 12) = 5281877500950956 / 2 ^ 99"
    using fl_small [of 47 "7922816251426434 / 2 ^ 96 / 12"] by (simp add: round_even_def)
  have b: "fl (5281877500950956 / 2 ^ 99 / 100) = 6760803201217224 / 2 ^ 106"
    using fl_small [of 54 "5281877500950956 / 2 ^ 99 / 100"] by (simp add: round_even_def)
  show ?thesis by (simp only: monthlyRate_f64_def literal_1e_13 a b)
qed

lemma monthlyRate_f64_1e_13_tiny:
  "0 < monthlyRate_f64 (fl (1 / 10 ^ 13)) \<and> monthlyRate_f64 (fl (1 / 10 ^ 13)) < 1 / 2 ^ 53"
  unfolding monthlyRate_f64_1e_13 by simp

lemma annuity_due_above_sum:
  assumes "0 < q" "0 < c" "0 < n"
  shows "c * real n < c * ((1 + q) ^ n - 1) / q * (1 + q)"
proof -
  have "(\<Sum>k = 1..n. c * 1) < (\<Sum>k = 1..n. c * (1 + q) ^ k)"
  proof (rule sum_strict_mono)
    show "finite {1..n}" by simp
    from assms show "{1..n} \<noteq> {}" by simp
    fix k assume "k \<in> {1..n}"
    then have "0 < k" by simp
    with assms have "1 < (1 + q) ^ k" by (intro one_less_power) simp_all
    with assms show "c * 1 < c * (1 + q) ^ k" by (intro mult_strict_left_mono)
  qed
  moreover from assms have "c * ((1 + q) ^ n - 1) / q * (1 + q) = (\<Sum>k = 1..n. c * (1 + q) ^ k)"
    using grow_closed [of q c n] grow_sum [of q c n] by simp
  ultimately show ?thesis by (simp add: mult.commute)
qed

section \<open>The constant-contribution future value\<close>

text \<open>
  C5. When the annual return is exactly 0 the monthly rate is 0 and
  \<^verbatim>\<open>calculateNormalSIP(m, 0, y)\<close> takes the linear-sum branch: it returns
  \<open>m * y * 12\<close>, for every \<open>m\<close> and every \<open>y\<close>. The division of the annuity formula has
  no finite value at this rate.
\<close>

theorem calculateNormalSIP_zero_rate:
  "calculateNormalSIP m 0 y = m * real y * 12
   \<and> js_div (m * ((1 + 0 / 12 / 100) ^ (y * 12) - 1)) (0 / 12 / 100) = None"
  by (simp add: calculateNormalSIP_def js_div_def)

text \<open>
  In exact arithmetic, when the monthly rate \<open>r / 12 / 100\<close> is not 0 the expression of
  \<^verbatim>\<open>calculateNormalSIP\<close> is \<open>m * ((1 + rate) ^ months - 1) / rate * (1 + rate)\<close> with
  \<open>months = y * 12\<close>, the future value of an annuity due: the sum over the months of one
  contribution compounded from the start of its month to the end of the horizon.
\<close>

lemma calculateNormalSIP_annuity_due:
  assumes "r / 12 / 100 \<noteq> 0"
  shows "calculateNormalSIP m r y =
           m * ((1 + r / 12 / 100) ^ (y * 12) - 1) / (r / 12 / 100) * (1 + r / 12 / 100)
         \<and> calculateNormalSIP m r y = (\<Sum>k = 1..y * 12. m * (1 + r / 12 / 100) ^ k)"
proof -
  have "calculateNormalSIP m r y =
          m * ((1 + r / 12 / 100) ^ (y * 12) - 1) / (r / 12 / 100) * (1 + r / 12 / 100)"
    using assms unfolding calculateNormalSIP_def Let_def by (simp only: if_False)
  moreover have "\<dots> = (\<Sum>k = 1..y * 12. m * (1 + r / 12 / 100) ^ k)"
    using grow_closed [OF assms] grow_sum by (simp only:)
  ultimately show ?thesis by (simp only:)
qed

text \<open>
  C6 says that for a monthly rate other than 0 \<^verbatim>\<open>calculateNormalSIP(m, r, y)\<close> returns
  the annuity-due future value \<open>m * ((1 + rate) ^ months - 1) / rate * (1 + rate)\<close>. The
  code does not at small rates. With 1000 a month, an annual return of \<^verbatim>\<open>1e-13\<close>
  percent and one year, the monthly rate is a positive binary64 number, the guard
  \<^verbatim>\<open>monthlyRate === 0\<close> is not taken and the annuity-due value at this rate is above
  12000; but \<^verbatim>\<open>1 + monthlyRate\<close> rounds to 1, the difference
  \<^verbatim>\<open>Math.pow(1 + monthlyRate, months) - 1\<close> is 0 and the function returns 0.
\<close>

theorem tiny_rate_not_annuity_due:
  "monthlyRate_f64 (fl (1 / 10 ^ 13)) = 6760803201217224 / 2 ^ 106
   \<and> monthlyRate_f64 (fl (1 / 10 ^ 13)) \<noteq> 0
   \<and> calculateNormalSIP_f64 1000 (fl (1 / 10 ^ 13)) 1 = Some 0
   \<and> 12000 < 1000 * ((1 + monthlyRate_f64 (fl (1 / 10 ^ 13))) ^ (1 * 12) - 1)
               / monthlyRate_f64 (fl (1 / 10 ^ 13)) * (1 + monthlyRate_f64 (fl (1 / 10 ^ 13)))"
proof -
  note tiny = monthlyRate_f64_1e_13_tiny
  have a: "calculateNormalSIP_f64 1000 (fl (1 / 10 ^ 13)) 1 = Some 0"
    using tiny by (intro calculateNormalSIP_f64_tiny_rate) simp_all
  from tiny have pos: "0 < monthlyRate_f64 (fl (1 / 10 ^ 13))" by simp
  from annuity_due_above_sum [OF pos, of 1000 12]
  have b: "12000 < 1000 * ((1 + monthlyRate_f64 (fl (1 / 10 ^ 13))) ^ (1 * 12) - 1)
               / monthlyRate_f64 (fl (1 / 10 ^ 13)) * (1 + monthlyRate_f64 (fl (1 / 10 ^ 13)))"
    by simp
  from pos have c: "monthlyRate_f64 (fl (1 / 10 ^ 13)) \<noteq> 0" by simp
  from monthlyRate_f64_1e_13 c a b show ?thesis by (simp only: simp_thms)
qed

section \<open>The step-up future value\<close>

text \<open>
  In exact arithmetic the month-by-month simulation with a step-up of 0 percent returns
  the value of the closed formula, for every \<open>m\<close>, \<open>r\<close> and \<open>y\<close>.
\<close>

lemma stepUp_zero_equals_normal:
  "calculateStepUpSIP m r y 0 = calculateNormalSIP m r y"
proof (cases "r / 12 / 100 = 0")
  case True
  then show ?thesis
    unfolding calculateStepUpSIP_zero_step calculateNormalSIP_def Let_def
    by (simp add: grow_zero_rate)
next
  case False
  then show ?thesis
    unfolding calculateStepUpSIP_zero_step calculateNormalSIP_def Let_def
    by (simp add: grow_closed)
qed

text \<open>
  C1 says that \<^verbatim>\<open>calculateStepUpSIP(m, r, y, 0)\<close> equals
  \<^verbatim>\<open>calculateNormalSIP(m, r, y)\<close>, within floating-point tolerance in the
  implementation. The code does not at small rates. With 1000 a month, an annual return
  of \<^verbatim>\<open>1e-13\<close> percent and one year, \<^verbatim>\<open>1 + monthlyRate\<close> rounds to 1: the closed
  formula of \<^verbatim>\<open>calculateNormalSIP\<close> cancels to 0, while the loop of
  \<^verbatim>\<open>calculateStepUpSIP\<close> adds the twelve contributions and returns 12000.
\<close>

theorem tiny_rate_normal_vs_stepUp:
  "calculateNormalSIP_f64 1000 (fl (1 / 10 ^ 13)) 1 = Some 0
   \<and> calculateStepUpSIP_f64 1000 (fl (1 / 10 ^ 13)) 1 0 = Some 12000"
proof -
  note tiny = monthlyRate_f64_1e_13_tiny
  have a: "calculateNormalSIP_f64 1000 (fl (1 / 10 ^ 13)) 1 = Some 0"
    using tiny by (intro calculateNormalSIP_f64_tiny_rate) simp_all
  from tiny have one: "fl (1 + monthlyRate_f64 (fl (1 / 10 ^ 13))) = 1"
    by (intro fl_one_plus_tiny) simp_all
  have "stepUp_years_f64 (monthlyRate_f64 (fl (1 / 10 ^ 13))) 0 1 1 (Some (real 0)) (Some (real 1000)) =
        Some (real (0 + 12 * (Suc 1 - 1) * 1000))"
    by (rule stepUp_years_f64_nat [OF one]) simp
  then have b: "calculateStepUpSIP_f64 1000 (fl (1 / 10 ^ 13)) 1 0 = Some 12000"
    by (simp add: calculateStepUpSIP_f64_def)
  from a b show ?thesis by simp
qed

section \<open>The chart series\<close>

text \<open>
  C7. For \<open>years \<ge> 1\<close> the series returned by \<^verbatim>\<open>generateChartData\<close> is not empty and
  its last point has \<open>year = years\<close>, whatever the sampling stride.
\<close>

theorem chart_last_year:
  assumes "1 \<le> years"
  shows "generateChartData m r years s \<noteq> [] \<and> cp_year (last (generateChartData m r years s)) = years"
proof -
  have ys: "map cp_year (generateChartData m r years s) =
            filter (\<lambda>i. i mod max 1 (years div 10) = 0) [1..<years] @ [years]"
    using assms by (simp only: generateChartData_years chart_years_list_snoc)
  then have ne: "generateChartData m r years s \<noteq> []" by auto
  then have "cp_year (last (generateChartData m r years s)) =
             last (map cp_year (generateChartData m r years s))"
    by (simp add: last_map)
  with ys ne show ?thesis by simp
qed

theorem chart_last_year_witness:
  "(1::nat) \<le> 25 \<and> generateChartData 5000 12 25 10 \<noteq> [] \<and>
   cp_year (last (generateChartData 5000 12 25 10)) = 25"
  using chart_last_year [of 25 5000 12 10] by simp

text \<open>
  C10. For \<open>years \<ge> 1\<close> the years of the points are strictly increasing, each lies
  between 1 and \<open>years\<close>, and exactly one point carries the final year, also when the
  final year is a multiple of the stride.
\<close>

theorem chart_years_increasing:
  assumes "1 \<le> years"
  shows "sorted_wrt (<) (map cp_year (generateChartData m r years s))
         \<and> (\<forall>p \<in> set (generateChartData m r years s). 1 \<le> cp_year p \<and> cp_year p \<le> years)
         \<and> length (filter (\<lambda>p. cp_year p = years) (generateChartData m r years s)) = 1"
proof -
  let ?ys = "map cp_year (generateChartData m r years s)"
  have ys: "?ys = filter (chart_emit years) [1..<Suc years]"
    by (rule generateChartData_years)
  have "sorted_wrt (<) [1..<Suc years]" by (rule sorted_wrt_upt)
  then have inc: "sorted_wrt (<) ?ys"
    unfolding ys by (rule sorted_wrt_filter)
  have "set ?ys \<subseteq> {1..years}" unfolding ys by auto
  then have rng: "\<forall>p \<in> set (generateChartData m r years s). 1 \<le> cp_year p \<and> cp_year p \<le> years"
    by auto
  have "length (filter (\<lambda>p. cp_year p = years) (generateChartData m r years s)) =
        length (filter (\<lambda>y. y = years) ?ys)"
    by (simp add: filter_map comp_def)
  also have "filter (\<lambda>y. y = years) ?ys = [years]"
    using assms unfolding ys by (simp only: chart_years_list_snoc) auto
  finally have "length (filter (\<lambda>p. cp_year p = years) (generateChartData m r years s)) = 1"
    by simp
  with inc rng show ?thesis by simp
qed

theorem chart_years_increasing_witness:
  "(1::nat) \<le> 20
   \<and> sorted_wrt (<) (map cp_year (generateChartData 5000 12 20 10))
   \<and> list_all (\<lambda>p. 1 \<le> cp_year p \<and> cp_year p \<le> 20) (generateChartData 5000 12 20 10)
   \<and> length (filter (\<lambda>p. cp_year p = 20) (generateChartData 5000 12 20 10)) = 1"
  using chart_years_increasing [of 20 5000 12 10] by (simp add: list_all_iff)

text \<open>
  C3, as stated, bounds the length of the series by about 11. At a horizon of 19 years the
  stride is \<open>max 1 (19 div 10) = 1\<close>, every year is sampled and the series has 19 points.
\<close>

theorem chart_length_counterexample:
  "length (generateChartData 1000 12 19 10) = 19 \<and> \<not> length (generateChartData 1000 12 19 10) \<le> 11"
  by (simp add: length_generateChartData)

text \<open>
  C3, amended. The sampled years are exactly the years \<open>yr\<close> of \<open>1..years\<close> with
  \<open>yr mod max 1 (years div 10) = 0\<close> or \<open>yr = years\<close>, in order. The series has at most 19
  points for every horizon, and at most 11 once the horizon is 90 years or more.
\<close>

theorem chart_sampling:
  "map cp_year (generateChartData m r years s) =
     filter (\<lambda>yr. yr mod max 1 (years div 10) = 0 \<or> yr = years) [1..<Suc years]
   \<and> length (generateChartData m r years s) \<le> 19
   \<and> (90 \<le> years \<longrightarrow> length (generateChartData m r years s) \<le> 11)"
proof -
  have a: "map cp_year (generateChartData m r years s) =
     filter (\<lambda>yr. yr mod max 1 (years div 10) = 0 \<or> yr = years) [1..<Suc years]"
  proof -
    have "chart_emit years = (\<lambda>yr. yr mod max 1 (years div 10) = 0 \<or> yr = years)"
      by (rule ext) (simp only: chart_emit_def)
    then show ?thesis by (simp only: generateChartData_years)
  qed
  have b: "length (generateChartData m r years s) \<le> 19"
  proof (cases "1 \<le> years")
    case True
    then show ?thesis by (simp only: length_generateChartData chart_length_le_19)
  next
    case False
    then have "years = 0" by simp
    then show ?thesis by (simp add: generateChartData_eq)
  qed
  have c: "90 \<le> years \<longrightarrow> length (generateChartData m r years s) \<le> 11"
  proof
    assume h: "90 \<le> years"
    then have "1 \<le> years" by simp
    with h show "length (generateChartData m r years s) \<le> 11"
      by (simp only: length_generateChartData chart_length_le_11)
  qed
  from a b c show ?thesis by (simp only: simp_thms)
qed

theorem chart_sampling_witness:
  "map cp_year (generateChartData 5000 12 95 10) =
     filter (\<lambda>yr. yr mod max 1 (95 div 10) = 0 \<or> yr = 95) [1..<Suc 95]
   \<and> length (generateChartData 5000 12 95 10) \<le> 19
   \<and> (90 \<le> (95::nat) \<and> length (generateChartData 5000 12 95 10) \<le> 11)"
  using chart_sampling [of 5000 12 95 10] by simp

section \<open>Degenerate inputs\<close>

text \<open>
  C2, as stated, has the breakdown and the chart series empty when the monthly investment
  is 0. The loops run over the years whatever the investment is: with \<open>m = 0\<close> and one
  year both sequences hold one element.
\<close>

theorem zero_investment_counterexample:
  "generateYearlyBreakdown 0 12 1 10 \<noteq> [] \<and> generateChartData 0 12 1 10 \<noteq> []"
  by (simp add: generateYearlyBreakdown_eq generateChartData_eq chart_emit_def)

text \<open>
  C2, amended. If \<open>years = 0\<close> or \<open>m = 0\<close> both future values are 0. If \<open>years = 0\<close> the
  breakdown and the chart series are empty. If \<open>m = 0\<close> the breakdown still has one record
  for each year and the chart series its sampled years, and every amount in them is 0.
  None of the functions has an error result on these inputs.
\<close>

theorem degenerate_inputs:
  "(years = 0 \<or> m = 0 \<longrightarrow>
      calculateNormalSIP m r years = 0 \<and> calculateStepUpSIP m r years s = 0)
   \<and> (years = 0 \<longrightarrow>
      generateYearlyBreakdown m r years s = [] \<and> generateChartData m r years s = [])
   \<and> (m = 0 \<longrightarrow>
      generateYearlyBreakdown m r years s =
        map (\<lambda>y. \<lparr>year = y, monthlyInvestment = 0, yearlyInvestment = 0, totalInvested = 0,
                   yearEndValue = 0, returns = 0\<rparr>) [1..<Suc years]
      \<and> generateChartData m r years s =
        map (\<lambda>y. \<lparr>cp_year = y, normalSIP = 0, stepUpSIP = 0\<rparr>)
          (filter (\<lambda>yr. yr mod max 1 (years div 10) = 0 \<or> yr = years) [1..<Suc years]))"
proof -
  have a: "years = 0 \<or> m = 0 \<longrightarrow>
      calculateNormalSIP m r years = 0 \<and> calculateStepUpSIP m r years s = 0"
    by (auto simp: calculateNormalSIP_0 calculateStepUpSIP_0 calculateNormalSIP_no_contribution
        calculateStepUpSIP_no_contribution)
  have b: "years = 0 \<longrightarrow>
      generateYearlyBreakdown m r years s = [] \<and> generateChartData m r years s = []"
    by (simp add: generateYearlyBreakdown_eq generateChartData_eq)
  have e: "chart_emit years = (\<lambda>yr. yr mod max 1 (years div 10) = 0 \<or> yr = years)"
    by (rule ext) (simp only: chart_emit_def)
  have c: "m = 0 \<longrightarrow>
      generateYearlyBreakdown m r years s =
        map (\<lambda>y. \<lparr>year = y, monthlyInvestment = 0, yearlyInvestment = 0, totalInvested = 0,
                   yearEndValue = 0, returns = 0\<rparr>) [1..<Suc years]
      \<and> generateChartData m r years s =
        map (\<lambda>y. \<lparr>cp_year = y, normalSIP = 0, stepUpSIP = 0\<rparr>)
          (filter (\<lambda>yr. yr mod max 1 (years div 10) = 0 \<or> yr = years) [1..<Suc years])"
  proof
    assume "m = 0"
    then show "generateYearlyBreakdown m r years s =
        map (\<lambda>y. \<lparr>year = y, monthlyInvestment = 0, yearlyInvestment = 0, totalInvested = 0,
                   yearEndValue = 0, returns = 0\<rparr>) [1..<Suc years]
      \<and> generateChartData m r years s =
        map (\<lambda>y. \<lparr>cp_year = y, normalSIP = 0, stepUpSIP = 0\<rparr>)
          (filter (\<lambda>yr. yr mod max 1 (years div 10) = 0 \<or> yr = years) [1..<Suc years])"
      by (simp only: generateYearlyBreakdown_eq generateChartData_eq e
          year_record_no_contribution chart_point_no_contribution simp_thms)
  qed
  from a b c show ?thesis by (simp only: simp_thms)
qed

theorem degenerate_inputs_witness:
  "calculateNormalSIP 5000 12 0 = 0 \<and> calculateStepUpSIP 5000 12 0 10 = 0
   \<and> generateYearlyBreakdown 5000 12 0 10 = [] \<and> generateChartData 5000 12 0 10 = []
   \<and> calculateNormalSIP 0 12 2 = 0 \<and> calculateStepUpSIP 0 12 2 10 = 0
   \<and> generateYearlyBreakdown 0 12 2 10 =
        [\<lparr>year = 1, monthlyInvestment = 0, yearlyInvestment = 0, totalInvested = 0,
          yearEndValue = 0, returns = 0\<rparr>,
         \<lparr>year = 2, monthlyInvestment = 0, yearlyInvestment = 0, totalInvested = 0,
          yearEndValue = 0, returns = 0\<rparr>]
   \<and> generateChartData 0 12 2 10 =
        [\<lparr>cp_year = 1, normalSIP = 0, stepUpSIP = 0\<rparr>,
         \<lparr>cp_year = 2, normalSIP = 0, stepUpSIP = 0\<rparr>]"
  using degenerate_inputs [of 0 5000 12 10] degenerate_inputs [of 2 0 12 10]
  by (simp add: upt_conv_Cons)

section \<open>The yearly breakdown\<close>

text \<open>
  C4, as stated, has \<open>returns = yearEndValue - totalInvested\<close> on the emitted, rounded
  fields. The code rounds the three fields separately. With the default inputs of the
  form (5000 a month, 12 percent, 10 years, 10 percent step-up) the record of year 7 has
  \<open>yearEndValue = 854764\<close>, \<open>totalInvested = 569230\<close> and \<open>returns = 285533\<close>, one less
  than the difference.
\<close>

theorem returns_field_counterexample:
  "yearEndValue (generateYearlyBreakdown 5000 12 10 10 ! 6) = 854764
   \<and> totalInvested (generateYearlyBreakdown 5000 12 10 10 ! 6) = 569230
   \<and> returns (generateYearlyBreakdown 5000 12 10 10 ! 6) = 285533
   \<and> returns (generateYearlyBreakdown 5000 12 10 10 ! 6) \<noteq>
       yearEndValue (generateYearlyBreakdown 5000 12 10 10 ! 6)
       - totalInvested (generateYearlyBreakdown 5000 12 10 10 ! 6)"
proof -
  have r: "generateYearlyBreakdown 5000 12 10 10 ! 6 =
     \<lparr>year = 7,
      monthlyInvestment = Math_round (5000 * (1 + 10 / 100) ^ 6),
      yearlyInvestment = Math_round (12 * (5000 * (1 + 10 / 100) ^ 6)),
      totalInvested = Math_round (invested 5000 10 7),
      yearEndValue = Math_round (calculateStepUpSIP 5000 12 7 10),
      returns = Math_round (calculateStepUpSIP 5000 12 7 10 - invested 5000 10 7)\<rparr>"
    using generateYearlyBreakdown_nth [of 6 10 5000 12 10] by simp
  have a: "Math_round (calculateStepUpSIP 5000 12 7 10) = 854764"
    using stepUp_value_year_7 by (intro Math_round_eqI) simp_all
  have b: "Math_round (invested 5000 10 7) = 569230"
    by (intro Math_round_eqI) (simp_all add: invested_year_7)
  have c: "Math_round (calculateStepUpSIP 5000 12 7 10 - invested 5000 10 7) = 285533"
    using stepUp_value_year_7 by (intro Math_round_eqI) (simp_all add: invested_year_7)
  show ?thesis by (simp add: r a b c)
qed

text \<open>
  C4, amended. In record \<open>i\<close> (counted from 0) \<open>yearEndValue\<close> is the rounded value of
  the unrounded balance \<open>calculateStepUpSIP m r (i + 1) s\<close>, \<open>totalInvested\<close> is the rounded
  sum of the contributions of the years so far, and \<open>returns\<close> is the rounded difference
  of the two unrounded amounts: rounding never feeds back into the running balances.
  Hence \<open>returns\<close> differs from \<open>yearEndValue - totalInvested\<close> by at most 1, and equals it
  when the unrounded total contributed is a whole number.
\<close>

theorem returns_field_rounding:
  assumes "i < years"
  shows "yearEndValue (generateYearlyBreakdown m r years s ! i) =
           Math_round (calculateStepUpSIP m r (Suc i) s)
       \<and> totalInvested (generateYearlyBreakdown m r years s ! i) =
           Math_round (\<Sum>k < Suc i. 12 * (m * (1 + s / 100) ^ k))
       \<and> returns (generateYearlyBreakdown m r years s ! i) =
           Math_round (calculateStepUpSIP m r (Suc i) s - (\<Sum>k < Suc i. 12 * (m * (1 + s / 100) ^ k)))
       \<and> \<bar>returns (generateYearlyBreakdown m r years s ! i)
           - (yearEndValue (generateYearlyBreakdown m r years s ! i)
              - totalInvested (generateYearlyBreakdown m r years s ! i))\<bar> \<le> 1
       \<and> ((\<Sum>k < Suc i. 12 * (m * (1 + s / 100) ^ k)) \<in> \<int> \<longrightarrow>
            returns (generateYearlyBreakdown m r years s ! i) =
              yearEndValue (generateYearlyBreakdown m r years s ! i)
              - totalInvested (generateYearlyBreakdown m r years s ! i))"
proof -
  let ?V = "calculateStepUpSIP m r (Suc i) s"
  let ?T = "\<Sum>k < Suc i. 12 * (m * (1 + s / 100) ^ k)"
  have T: "invested m s (Suc i) = ?T" by (simp only: invested_def)
  note rec = generateYearlyBreakdown_nth [OF assms, of m r s, unfolded T]
  have a: "\<bar>Math_round (?V - ?T) - (Math_round ?V - Math_round ?T)\<bar> \<le> 1"
    by (rule Math_round_diff)
  have b: "?T \<in> \<int> \<longrightarrow> Math_round (?V - ?T) = Math_round ?V - Math_round ?T"
    by (rule impI) (rule Math_round_diff_int)
  from a b show ?thesis by (simp only: rec YearRecord.simps simp_thms)
qed

theorem returns_field_rounding_witness:
  "(0::nat) < 1
   \<and> yearEndValue (generateYearlyBreakdown 1000 0 1 0 ! 0) = Math_round (calculateStepUpSIP 1000 0 (Suc 0) 0)
   \<and> totalInvested (generateYearlyBreakdown 1000 0 1 0 ! 0) = Math_round 12000
   \<and> returns (generateYearlyBreakdown 1000 0 1 0 ! 0) = Math_round (calculateStepUpSIP 1000 0 (Suc 0) 0 - 12000)
   \<and> \<bar>returns (generateYearlyBreakdown 1000 0 1 0 ! 0)
           - (yearEndValue (generateYearlyBreakdown 1000 0 1 0 ! 0)
              - totalInvested (generateYearlyBreakdown 1000 0 1 0 ! 0))\<bar> \<le> 1
   \<and> (12000::real) \<in> \<int>
   \<and> returns (generateYearlyBreakdown 1000 0 1 0 ! 0) =
              yearEndValue (generateYearlyBreakdown 1000 0 1 0 ! 0)
              - totalInvested (generateYearlyBreakdown 1000 0 1 0 ! 0)"
  using returns_field_rounding [of 0 1 1000 0 0] by simp

lemma stepUp_value_small:
  "0 \<le> calculateStepUpSIP (1 / 100) 12 1 10 \<and> calculateStepUpSIP (1 / 100) 12 1 10 < 1 / 2
   \<and> 0 \<le> calculateStepUpSIP (1 / 100) 12 2 10 \<and> calculateStepUpSIP (1 / 100) 12 2 10 < 1 / 2"
  by (simp add: calculateStepUpSIP_def stepUp_years_unfold stepUp_years_done grow_value power_divide
      del: grow.simps)

text \<open>
  C8, as stated, has the \<open>yearEndValue\<close> fields strictly increasing for every \<open>m > 0\<close>.
  The fields are rounded: with a monthly investment of 0.01 (12 percent, 10 percent
  step-up) the balances after one and two years are both below one half and both records
  report 0.
\<close>

theorem yearEndValue_counterexample:
  "yearEndValue (generateYearlyBreakdown (1 / 100) 12 2 10 ! 0) = 0
   \<and> yearEndValue (generateYearlyBreakdown (1 / 100) 12 2 10 ! 1) = 0
   \<and> \<not> yearEndValue (generateYearlyBreakdown (1 / 100) 12 2 10 ! 0)
       < yearEndValue (generateYearlyBreakdown (1 / 100) 12 2 10 ! 1)"
proof -
  have a: "Math_round (calculateStepUpSIP (1 / 100) 12 1 10) = 0"
    using stepUp_value_small by (intro Math_round_eqI) simp_all
  have b: "Math_round (calculateStepUpSIP (1 / 100) 12 2 10) = 0"
    using stepUp_value_small by (intro Math_round_eqI) simp_all
  have "yearEndValue (generateYearlyBreakdown (1 / 100) 12 2 10 ! 0) = 0"
    using generateYearlyBreakdown_nth [of 0 2 "1 / 100" 12 10] a by simp
  moreover have "yearEndValue (generateYearlyBreakdown (1 / 100) 12 2 10 ! 1) = 0"
    using generateYearlyBreakdown_nth [of 1 2 "1 / 100" 12 10] b by (simp add: numeral_2_eq_2)
  ultimately show ?thesis by simp
qed

text \<open>
  C8, amended. For \<open>m > 0\<close>, \<open>r \<ge> 0\<close>, \<open>s \<ge> 0\<close> and records \<open>i < j\<close>: the unrounded
  year-end balances are strictly increasing, the reported \<open>yearEndValue\<close> fields are
  non-decreasing, and they are strictly increasing whenever one year of contributions
  amounts to at least one currency unit (\<open>12 * m \<ge> 1\<close>).
\<close>

theorem yearEndValue_increasing:
  assumes "0 < m" "0 \<le> r" "0 \<le> s" "i < j" "j < years"
  shows "calculateStepUpSIP m r (Suc i) s < calculateStepUpSIP m r (Suc j) s
       \<and> yearEndValue (generateYearlyBreakdown m r years s ! i) \<le>
           yearEndValue (generateYearlyBreakdown m r years s ! j)
       \<and> (1 \<le> 12 * m \<longrightarrow>
            yearEndValue (generateYearlyBreakdown m r years s ! i) <
            yearEndValue (generateYearlyBreakdown m r years s ! j))"
proof -
  let ?Vi = "calculateStepUpSIP m r (Suc i) s" and ?Vj = "calculateStepUpSIP m r (Suc j) s"
  from assms have m: "0 \<le> m" and ij: "Suc i < Suc j" and i: "i < years" by simp_all
  have step: "?Vi + 12 * m \<le> ?Vj"
    by (rule calculateStepUpSIP_mono [OF m assms(2,3) ij])
  have yi: "yearEndValue (generateYearlyBreakdown m r years s ! i) = Math_round ?Vi"
    by (simp only: generateYearlyBreakdown_nth [OF i] YearRecord.simps)
  have yj: "yearEndValue (generateYearlyBreakdown m r years s ! j) = Math_round ?Vj"
    by (simp only: generateYearlyBreakdown_nth [OF assms(5)] YearRecord.simps)
  from step assms(1) have a: "?Vi < ?Vj" by linarith
  then have b: "Math_round ?Vi \<le> Math_round ?Vj" by (intro Math_round_mono) simp
  have c: "1 \<le> 12 * m \<longrightarrow> Math_round ?Vi < Math_round ?Vj"
  proof
    assume "1 \<le> 12 * m"
    with step have "?Vi + 1 \<le> ?Vj" by linarith
    then show "Math_round ?Vi < Math_round ?Vj" by (rule Math_round_strict_mono)
  qed
  from a b c show ?thesis by (simp only: yi yj simp_thms)
qed

theorem yearEndValue_increasing_witness:
  "(0::real) < 5000 \<and> (0::real) \<le> 12 \<and> (0::real) \<le> 10 \<and> (0::nat) < 1 \<and> (1::nat) < 10
   \<and> calculateStepUpSIP 5000 12 (Suc 0) 10 < calculateStepUpSIP 5000 12 (Suc 1) 10
   \<and> yearEndValue (generateYearlyBreakdown 5000 12 10 10 ! 0) \<le>
       yearEndValue (generateYearlyBreakdown 5000 12 10 10 ! 1)
   \<and> (1::real) \<le> 12 * 5000
   \<and> yearEndValue (generateYearlyBreakdown 5000 12 10 10 ! 0) <
       yearEndValue (generateYearlyBreakdown 5000 12 10 10 ! 1)"
  using yearEndValue_increasing [of 5000 12 10 0 1 10] by simp

section \<open>The inflation adjustment\<close>

lemma inflation_base_pos: "0 \<le> i \<Longrightarrow> 0 < (1 + i / 100) ^ y" for i :: real
  by (intro zero_less_power) (simp add: add_pos_nonneg)

text \<open>
  C9. \<^verbatim>\<open>calculateInflationAdjusted(fv, i, y)\<close> returns \<open>fv / (1 + i / 100) ^ y\<close>; the
  quotient exists unless \<open>i = -100\<close> and \<open>y > 0\<close>, where the divisor is 0 and JavaScript
  yields a non-finite number (every rate \<open>i \<ge> 0\<close> is clear of this). At \<open>i = 0\<close> the
  result is \<open>fv\<close>. For \<open>fv > 0\<close> the result does not increase when the rate grows from
  \<open>i \<ge> 0\<close>, and strictly decreases if \<open>y \<ge> 1\<close>; for \<open>i > 0\<close> it strictly decreases when
  the horizon grows from \<open>y \<ge> 1\<close>.
\<close>

theorem inflation_adjusted:
  "calculateInflationAdjusted fv i y =
     (if 1 + i / 100 = 0 \<and> 0 < y then None else Some (fv / (1 + i / 100) ^ y))
   \<and> calculateInflationAdjusted fv 0 y = Some fv
   \<and> (0 < fv \<and> 0 \<le> i \<and> i \<le> i' \<longrightarrow>
        (\<exists>a b. calculateInflationAdjusted fv i y = Some a
             \<and> calculateInflationAdjusted fv i' y = Some b
             \<and> b \<le> a \<and> (i < i' \<and> 1 \<le> y \<longrightarrow> b < a)))
   \<and> (0 < fv \<and> 0 < i \<and> 1 \<le> y \<and> y < y' \<longrightarrow>
        (\<exists>a b. calculateInflationAdjusted fv i y = Some a
             \<and> calculateInflationAdjusted fv i y' = Some b
             \<and> b < a))"
proof -
  have eq: "calculateInflationAdjusted fv i y =
     (if 1 + i / 100 = 0 \<and> 0 < y then None else Some (fv / (1 + i / 100) ^ y))"
    by (simp add: calculateInflationAdjusted_def js_div_def)
  have id: "calculateInflationAdjusted fv 0 y = Some fv"
    by (simp add: calculateInflationAdjusted_def js_div_def)
  have val: "calculateInflationAdjusted fv j n = Some (fv / (1 + j / 100) ^ n)"
    if "0 \<le> j" for j n
  proof -
    from that have "0 < 1 + j / 100" by (simp add: add_pos_nonneg)
    then have "(1 + j / 100) ^ n \<noteq> 0" by simp
    then show ?thesis by (simp only: calculateInflationAdjusted_def js_div_def if_False)
  qed
  have rate: "0 < fv \<and> 0 \<le> i \<and> i \<le> i' \<longrightarrow>
        (\<exists>a b. calculateInflationAdjusted fv i y = Some a
             \<and> calculateInflationAdjusted fv i' y = Some b
             \<and> b \<le> a \<and> (i < i' \<and> 1 \<le> y \<longrightarrow> b < a))"
  proof
    assume h: "0 < fv \<and> 0 \<le> i \<and> i \<le> i'"
    then have i': "0 \<le> i'" by simp
    from h have base: "0 \<le> 1 + i / 100" "1 + i / 100 \<le> 1 + i' / 100" by simp_all
    then have "(1 + i / 100) ^ y \<le> (1 + i' / 100) ^ y" by (intro power_mono)
    with h inflation_base_pos [of i y]
    have le: "fv / (1 + i' / 100) ^ y \<le> fv / (1 + i / 100) ^ y"
      by (intro divide_left_mono) (simp_all add: inflation_base_pos i')
    have lt: "fv / (1 + i' / 100) ^ y < fv / (1 + i / 100) ^ y" if "i < i' \<and> 1 \<le> y"
    proof -
      from that base have "(1 + i / 100) ^ y < (1 + i' / 100) ^ y"
        by (intro power_strict_mono) simp_all
      with h show ?thesis
        by (intro divide_strict_left_mono) (simp_all add: inflation_base_pos i')
    qed
    from h i' le lt show "\<exists>a b. calculateInflationAdjusted fv i y = Some a
             \<and> calculateInflationAdjusted fv i' y = Some b
             \<and> b \<le> a \<and> (i < i' \<and> 1 \<le> y \<longrightarrow> b < a)"
      by (simp add: val)
  qed
  have horizon: "0 < fv \<and> 0 < i \<and> 1 \<le> y \<and> y < y' \<longrightarrow>
        (\<exists>a b. calculateInflationAdjusted fv i y = Some a
             \<and> calculateInflationAdjusted fv i y' = Some b
             \<and> b < a)"
  proof
    assume h: "0 < fv \<and> 0 < i \<and> 1 \<le> y \<and> y < y'"
    then have i0: "0 \<le> i" and "1 < 1 + i / 100" by simp_all
    with h have "(1 + i / 100) ^ y < (1 + i / 100) ^ y'"
      by (intro power_strict_increasing) simp_all
    with h i0 have "fv / (1 + i / 100) ^ y' < fv / (1 + i / 100) ^ y"
      by (intro divide_strict_left_mono) (simp_all add: inflation_base_pos)
    with i0 show "\<exists>a b. calculateInflationAdjusted fv i y = Some a
             \<and> calculateInflationAdjusted fv i y' = Some b \<and> b < a"
      by (simp add: val)
  qed
  from eq id rate horizon show ?thesis by (simp only: simp_thms)
qed

theorem inflation_adjusted_witness:
  "calculateInflationAdjusted 1000 6 2 = Some (1000 / (1 + 6 / 100) ^ 2)
   \<and> calculateInflationAdjusted 1000 0 2 = Some 1000
   \<and> (0::real) < 1000 \<and> (0::real) \<le> 6 \<and> (6::real) < 8 \<and> (1::nat) \<le> 2 \<and> (2::nat) < 3
   \<and> (\<exists>a b. calculateInflationAdjusted 1000 6 2 = Some a
           \<and> calculateInflationAdjusted 1000 8 2 = Some b \<and> b \<le> a \<and> b < a)
   \<and> (\<exists>a b. calculateInflationAdjusted 1000 6 2 = Some a
           \<and> calculateInflationAdjusted 1000 6 3 = Some b \<and> b < a)"
  using inflation_adjusted [of 1000 6 2 8 3] by auto

end
